theory Spec2Isabelle
  imports Main "HOL-Library.Word"
begin

unbundle bit_operations_syntax

section \<open>Data model\<close>

type_synonym byte = "8 word"

text \<open>
  Modelled from the spec: the type \<open>chunkers.ChunkerOpts\<close> is declared in the parent
  package, which is not among the sources. The kernels read its three fields and compare
  them with the \<open>int\<close> argument \<open>n\<close>, so the fields are Go \<open>int\<close>s. Validated
  values are at most \<open>2 ^ 30\<close>, so no 64-bit wrap-around can occur and \<open>int\<close> is exact.
\<close>

record ChunkerOpts =
  MinSize :: int
  NormalSize :: int
  MaxSize :: int

text \<open>
  A Go byte slice. \<open>visible\<close> holds the elements \<open>data[0] .. data[len(data)-1]\<close>;
  \<open>beyond\<close> holds the bytes of the backing array between \<open>len(data)\<close> and
  \<open>cap(data)\<close>. An index expression \<open>data[i]\<close> panics unless \<open>0 \<le> i < len(data)\<close>; a
  slice expression \<open>data[a:b]\<close> panics unless \<open>0 \<le> a \<le> b \<le> cap(data)\<close>.
\<close>

record slice =
  visible :: "byte list"
  beyond :: "byte list"

definition len :: "slice \<Rightarrow> nat" where
  "len data = length (visible data)"

definition cap :: "slice \<Rightarrow> nat" where
  "cap data = length (visible data) + length (beyond data)"

definition backing :: "slice \<Rightarrow> byte list" where
  "backing data = visible data @ beyond data"

text \<open>The contents of \<open>data[i : i+8]\<close>, for \<open>i + 8 \<le> cap data\<close>.\<close>

definition window :: "slice \<Rightarrow> nat \<Rightarrow> byte list" where
  "window data i = take 8 (drop i (backing data))"

section \<open>Options: defaults and validation\<close>

datatype error = ErrNormalSize | ErrMinSize | ErrMaxSize | ErrMinSizeNotMultipleOf8

text \<open>The byte-indexed revision (\<open>src/unnamed/part_000\<close>).\<close>

definition DefaultOptions :: ChunkerOpts where
  "DefaultOptions = \<lparr>MinSize = 2 * 1024, NormalSize = 10 * 1024, MaxSize = 64 * 1024\<rparr>"

definition Validate :: "ChunkerOpts \<Rightarrow> error option" where
  "Validate options =
     (if NormalSize options = 0 \<or> NormalSize options < 64 \<or>
         NormalSize options > 1024 * 1024 * 1024 then Some ErrNormalSize
      else if MinSize options < 64 \<or> MinSize options > 1024 * 1024 * 1024 \<or>
         MinSize options \<ge> NormalSize options then Some ErrMinSize
      else if MaxSize options < 64 \<or> MaxSize options > 1024 * 1024 * 1024 \<or>
         MaxSize options \<le> NormalSize options then Some ErrMaxSize
      else None)"

section \<open>The byte-indexed kernel\<close>

definition maskS :: "64 word" where
  "maskS = 0x2F"

definition maskL :: "64 word" where
  "maskL = 0x2C"

definition lowEntropyStringThreshold :: nat where
  "lowEntropyStringThreshold = 64"

text \<open>\<open>bits.OnesCount8\<close>: the number of one bits of a byte.\<close>

definition OnesCount8 :: "byte \<Rightarrow> int" where
  "OnesCount8 v = (\<Sum>k\<leftarrow>[0, 1, 2, 3, 4, 5, 6, 7]. if bit v k then 1 else 0)"

text \<open>
  Modelled from the spec: the 256-entry table \<open>hammingDistanceTo0xAA\<close> is declared in a
  file that is not among the sources. The spec gives its entries as the Hamming weight of
  \<open>b \<oplus> 0xAA\<close>, and the kernel keeps the expression the table replaces in a comment:
  \<open>bits.OnesCount8(inByte^0xAA) - bits.OnesCount8(outByte^0xAA)\<close>.
\<close>

definition hammingDistanceTo0xAA :: "byte \<Rightarrow> int" where
  "hammingDistanceTo0xAA b = OnesCount8 (b XOR 0xAA)"

text \<open>The initialisation loop \<open>for _, v := range outBufWin { dist += ... }\<close>.\<close>

definition initial_dist :: "byte list \<Rightarrow> int" where
  "initial_dist win = foldl (\<lambda>dist v. dist + OnesCount8 (v XOR 0xAA)) 0 win"

text \<open>
  Each \<open>return\<close> statement of \<open>Algorithm\<close>, and the run-time panic, is one way out of the
  function; \<open>cutpoint\<close> gives the value the statement returns.
\<close>

datatype exit =
    AtShort int     \<comment> \<open>\<open>n \<le> minSize\<close>: \<open>cutpoint = n\<close>\<close>
  | AtLEST nat      \<comment> \<open>low-entropy run at \<open>i\<close>: \<open>cutpoint = i + 8\<close>\<close>
  | AtMask nat nat  \<comment> \<open>mask test passed at \<open>(i, j)\<close>: \<open>cutpoint = i + j\<close>\<close>
  | AtEnd int       \<comment> \<open>scan exhausted: \<open>cutpoint = n\<close>\<close>
  | AtPanic         \<comment> \<open>run-time panic\<close>

datatype outcome = Return int | Panic

fun cutpoint :: "exit \<Rightarrow> outcome" where
  "cutpoint (AtShort n) = Return n"
| "cutpoint (AtLEST i) = Return (int i + 8)"
| "cutpoint (AtMask i j) = Return (int i + int j)"
| "cutpoint (AtEnd n) = Return n"
| "cutpoint AtPanic = Panic"

text \<open>
  One evaluation of the test \<open>(uint64(dist) & mask) == 0\<close>: the loop indices, and the mask
  and distance it reads.
\<close>

record mask_test =
  at_i :: nat
  at_j :: nat
  mask_used :: "64 word"
  dist_seen :: int

datatype inner_flow = Stop exit | Fallthrough int

text \<open>
  The inner loop \<open>for j := 0; j < 8; j++\<close>, from index \<open>j\<close> on. It yields the mask tests
  it performs and either leaves the function or falls through with the updated \<open>dist\<close>.
\<close>

function inner :: "slice \<Rightarrow> nat \<Rightarrow> 64 word \<Rightarrow> nat \<Rightarrow> int \<Rightarrow> mask_test list \<times> inner_flow" where
  "inner data i msk j dist =
     (if j < 8 then
        (let t = \<lparr>at_i = i, at_j = j, mask_used = msk, dist_seen = dist\<rparr> in
         if (word_of_int dist :: 64 word) AND msk = 0 then ([t], Stop (AtMask i j))
         else if i + j < 8 \<or> len data \<le> i + j then ([t], Stop AtPanic)
         else
           (let outByte = backing data ! (i + j - 8);
                inByte = backing data ! (i + j);
                update = hammingDistanceTo0xAA inByte - hammingDistanceTo0xAA outByte;
                r = inner data i msk (j + 1) (dist + update)
            in (t # fst r, snd r)))
      else ([], Fallthrough dist))"
  by pat_completeness auto
termination
  by (relation "measure (\<lambda>(data, i, msk, j, dist). 8 - j)") auto

text \<open>
  The outer loop \<open>for i := minSize + 8; i <= n-8; i += 8\<close>, from index \<open>i\<close> on, with the
  loop-carried variables \<open>mask\<close> (here \<open>msk\<close>), \<open>lowEntropyCount\<close>, \<open>dist\<close> and \<open>outBufWin\<close>.
\<close>

function scan :: "slice \<Rightarrow> int \<Rightarrow> int \<Rightarrow> nat \<Rightarrow> 64 word \<Rightarrow> nat \<Rightarrow> int \<Rightarrow> byte list
    \<Rightarrow> mask_test list \<times> exit" where
  "scan data n normalSize i msk lowEntropyCount dist outBufWin =
     (if int i \<le> n - 8 then
        (let msk' = (if int i \<ge> normalSize then maskL else msk) in
         if cap data < i + 8 then ([], AtPanic)
         else
           (let inBufWin = window data i in
            if inBufWin = outBufWin then
              (if lowEntropyCount + 1 \<ge> lowEntropyStringThreshold then ([], AtLEST i)
               else scan data n normalSize (i + 8) msk' (lowEntropyCount + 1) dist outBufWin)
            else
              (case inner data i msk' 0 dist of
                 (ts, Stop e) \<Rightarrow> (ts, e)
               | (ts, Fallthrough dist') \<Rightarrow>
                   (let r = scan data n normalSize (i + 8) msk' 0 dist' inBufWin
                    in (ts @ fst r, snd r)))))
      else ([], AtEnd n))"
  by pat_completeness auto
termination
  by (relation "measure (\<lambda>(data, n, normalSize, i, msk, c, dist, out). nat (n - int i))") auto

text \<open>
  \<open>Algorithm\<close> up to the start of the scan: the precondition check, the \<open>switch\<close>, and the
  initial window \<open>data[minSize : minSize+8]\<close>.
\<close>

definition run :: "ChunkerOpts \<Rightarrow> slice \<Rightarrow> int \<Rightarrow> mask_test list \<times> exit" where
  "run options data n0 =
     (if n0 > int (len data) then ([], AtPanic)
      else
        (let minSize = MinSize options; maxSize = MaxSize options;
             normalSize = NormalSize options
         in if n0 \<le> minSize then ([], AtShort n0)
            else
              (let n = (if n0 \<ge> maxSize then maxSize else n0);
                   normalSize' = (if n0 \<ge> maxSize then normalSize
                                  else if n0 \<le> normalSize then n0 else normalSize)
               in if minSize < 0 \<or> int (cap data) < minSize + 8 then ([], AtPanic)
                  else
                    (let outBufWin = window data (nat minSize);
                         dist = initial_dist outBufWin
                     in scan data n normalSize' (nat minSize + 8) maskS 0 dist outBufWin))))"

definition Algorithm :: "ChunkerOpts \<Rightarrow> slice \<Rightarrow> int \<Rightarrow> outcome" where
  "Algorithm options data n = cutpoint (snd (run options data n))"

definition mask_tests :: "ChunkerOpts \<Rightarrow> slice \<Rightarrow> int \<Rightarrow> mask_test list" where
  "mask_tests options data n = fst (run options data n)"

section \<open>Concrete inputs\<close>

definition small_opts :: ChunkerOpts where
  "small_opts = \<lparr>MinSize = 64, NormalSize = 128, MaxSize = 256\<rparr>"

text \<open>65 zero bytes, as \<open>make([]byte, 65)\<close> gives them: length and capacity 65.\<close>

definition zeros65 :: slice where
  "zeros65 = \<lparr>visible = replicate 65 0, beyond = []\<rparr>"

text \<open>88 bytes whose window at \<open>minSize = 64\<close> is the pattern \<open>0xAA\<close> itself.\<close>

definition pattern88 :: slice where
  "pattern88 = \<lparr>visible = replicate 64 7 @ replicate 8 0xAA @ replicate 16 0, beyond = []\<rparr>"

(*DEFS-END*)

section \<open>Unfolding the loops\<close>

declare inner.simps [simp del] scan.simps [simp del]

lemma len_le_cap: "len data \<le> cap data"
  by (simp add: len_def cap_def)

lemma inner_done: "\<not> j < 8 \<Longrightarrow> inner data i msk j dist = ([], Fallthrough dist)"
  by (simp add: inner.simps)

lemma inner_hit:
  "j < 8 \<Longrightarrow> (word_of_int dist :: 64 word) AND msk = 0 \<Longrightarrow>
   inner data i msk j dist =
     ([\<lparr>at_i = i, at_j = j, mask_used = msk, dist_seen = dist\<rparr>], Stop (AtMask i j))"
  by (simp add: inner.simps [of data i msk j])

lemma inner_step:
  "j < 8 \<Longrightarrow> (word_of_int dist :: 64 word) AND msk \<noteq> 0 \<Longrightarrow> 8 \<le> i + j \<Longrightarrow>
   i + j < len data \<Longrightarrow>
   inner data i msk j dist =
     (\<lparr>at_i = i, at_j = j, mask_used = msk, dist_seen = dist\<rparr> #
        fst (inner data i msk (j + 1)
          (dist + (hammingDistanceTo0xAA (backing data ! (i + j))
                 - hammingDistanceTo0xAA (backing data ! (i + j - 8))))),
      snd (inner data i msk (j + 1)
          (dist + (hammingDistanceTo0xAA (backing data ! (i + j))
                 - hammingDistanceTo0xAA (backing data ! (i + j - 8))))))"
  by (simp add: inner.simps [of data i msk j] Let_def)

lemma scan_end: "\<not> int i \<le> n - 8 \<Longrightarrow> scan data n ns i msk c dist out = ([], AtEnd n)"
  by (simp add: scan.simps)

lemma scan_lest:
  "int i \<le> n - 8 \<Longrightarrow> i + 8 \<le> cap data \<Longrightarrow> window data i = out \<Longrightarrow>
   lowEntropyStringThreshold \<le> c + 1 \<Longrightarrow> scan data n ns i msk c dist out = ([], AtLEST i)"
  by (simp add: scan.simps)

lemma scan_skip:
  "int i \<le> n - 8 \<Longrightarrow> i + 8 \<le> cap data \<Longrightarrow> window data i = out \<Longrightarrow>
   c + 1 < lowEntropyStringThreshold \<Longrightarrow>
   scan data n ns i msk c dist out =
     scan data n ns (i + 8) (if int i \<ge> ns then maskL else msk) (c + 1) dist out"
  by (simp add: scan.simps [of data n ns i])

lemma scan_stop:
  "int i \<le> n - 8 \<Longrightarrow> i + 8 \<le> cap data \<Longrightarrow> window data i \<noteq> out \<Longrightarrow>
   inner data i (if int i \<ge> ns then maskL else msk) 0 dist = (ts, Stop e) \<Longrightarrow>
   scan data n ns i msk c dist out = (ts, e)"
  by (simp add: scan.simps [of data n ns i])

lemma scan_next:
  "int i \<le> n - 8 \<Longrightarrow> i + 8 \<le> cap data \<Longrightarrow> window data i \<noteq> out \<Longrightarrow>
   inner data i (if int i \<ge> ns then maskL else msk) 0 dist = (ts, Fallthrough dist') \<Longrightarrow>
   scan data n ns i msk c dist out =
     (ts @ fst (scan data n ns (i + 8) (if int i \<ge> ns then maskL else msk) 0 dist' (window data i)),
      snd (scan data n ns (i + 8) (if int i \<ge> ns then maskL else msk) 0 dist' (window data i)))"
  by (simp add: scan.simps [of data n ns i] Let_def)

text \<open>The inner loop leaves the function only through the mask test or a panic.\<close>

lemma inner_Stop:
  "snd (inner data i msk j dist) = Stop e \<Longrightarrow>
     e = AtPanic \<or> (\<exists>j'. j \<le> j' \<and> j' < 8 \<and> e = AtMask i j')"
proof (induction data i msk j dist rule: inner.induct)
  case (1 data i msk j dist)
  show ?case
  proof (cases "j < 8")
    case False
    with "1.prems" show ?thesis by (simp add: inner_done)
  next
    case True
    show ?thesis
    proof (cases "(word_of_int dist :: 64 word) AND msk = 0")
      case hit: True
      with True "1.prems" show ?thesis by (auto simp: inner_hit)
    next
      case miss: False
      show ?thesis
      proof (cases "i + j < 8 \<or> len data \<le> i + j")
        case True
        with \<open>j < 8\<close> miss "1.prems" show ?thesis
          by (auto simp: inner.simps [of data i msk j] Let_def)
      next
        case False
        with \<open>j < 8\<close> miss "1.prems"
        have "snd (inner data i msk (j + 1)
                (dist + (hammingDistanceTo0xAA (backing data ! (i + j))
                       - hammingDistanceTo0xAA (backing data ! (i + j - 8))))) = Stop e"
          by (simp add: inner_step)
        from "1.IH" [OF \<open>j < 8\<close> refl miss False refl refl refl this]
        show ?thesis by auto
      qed
    qed
  qed
qed

text \<open>Inside the scanned range the index expressions of the inner loop are in bounds.\<close>

lemma inner_no_panic:
  "8 \<le> i \<Longrightarrow> i + 8 \<le> len data \<Longrightarrow> snd (inner data i msk j dist) \<noteq> Stop AtPanic"
proof (induction data i msk j dist rule: inner.induct)
  case (1 data i msk j dist)
  show ?case
  proof (cases "j < 8")
    case False
    then show ?thesis by (simp add: inner_done)
  next
    case True
    show ?thesis
    proof (cases "(word_of_int dist :: 64 word) AND msk = 0")
      case hit: True
      with True show ?thesis by (simp add: inner_hit)
    next
      case miss: False
      from True "1.prems" have ok: "\<not> (i + j < 8 \<or> len data \<le> i + j)" by simp
      from "1.IH" [OF True refl miss ok refl refl refl "1.prems"]
      show ?thesis using True miss ok by (simp add: inner_step)
    qed
  qed
qed

text \<open>
  Induction along the outer loop for a call that meets the precondition \<open>n \<le> len(data)\<close>:
  one case for each way an iteration can go.
\<close>

lemma scan_cases_induct [consumes 2, case_names End Lest Skip Hit Next]:
  assumes "n \<le> int (len data)" and "8 \<le> i"
  assumes End: "\<And>i msk c dist out. \<not> int i \<le> n - 8 \<Longrightarrow> P i msk c dist out"
  assumes Lest: "\<And>i msk c dist out. 8 \<le> i \<Longrightarrow> i + 8 \<le> len data \<Longrightarrow> int i \<le> n - 8 \<Longrightarrow>
      window data i = out \<Longrightarrow> lowEntropyStringThreshold \<le> c + 1 \<Longrightarrow> P i msk c dist out"
  assumes Skip: "\<And>i msk c dist out. 8 \<le> i \<Longrightarrow> i + 8 \<le> len data \<Longrightarrow> int i \<le> n - 8 \<Longrightarrow>
      window data i = out \<Longrightarrow> c + 1 < lowEntropyStringThreshold \<Longrightarrow>
      P (i + 8) (if int i \<ge> ns then maskL else msk) (c + 1) dist out \<Longrightarrow> P i msk c dist out"
  assumes Hit: "\<And>i msk c dist out ts j. 8 \<le> i \<Longrightarrow> i + 8 \<le> len data \<Longrightarrow> int i \<le> n - 8 \<Longrightarrow>
      window data i \<noteq> out \<Longrightarrow> j < 8 \<Longrightarrow>
      inner data i (if int i \<ge> ns then maskL else msk) 0 dist = (ts, Stop (AtMask i j)) \<Longrightarrow>
      P i msk c dist out"
  assumes Next: "\<And>i msk c dist out ts dist'. 8 \<le> i \<Longrightarrow> i + 8 \<le> len data \<Longrightarrow> int i \<le> n - 8 \<Longrightarrow>
      window data i \<noteq> out \<Longrightarrow>
      inner data i (if int i \<ge> ns then maskL else msk) 0 dist = (ts, Fallthrough dist') \<Longrightarrow>
      P (i + 8) (if int i \<ge> ns then maskL else msk) 0 dist' (window data i) \<Longrightarrow>
      P i msk c dist out"
  shows "P i msk c dist out"
proof -
  have "data' = data \<longrightarrow> n' = n \<longrightarrow> ns' = ns \<longrightarrow> 8 \<le> i \<longrightarrow> P i msk c dist out"
    for data' n' ns'
  proof (induction data' n' ns' i msk c dist out rule: scan.induct)
    case (1 data' n' ns' i msk c dist out)
    let ?m = "if int i \<ge> ns then maskL else msk"
    show ?case
    proof (intro impI)
      assume eqs: "data' = data" "n' = n" "ns' = ns" and i8: "8 \<le> i"
      note IH = "1.IH" [unfolded eqs]
      show "P i msk c dist out"
      proof (cases "int i \<le> n - 8")
        case False
        then show ?thesis by (rule End)
      next
        case True
        with assms(1) have lenok: "i + 8 \<le> len data" by linarith
        then have capok: "\<not> cap data < i + 8" using len_le_cap [of data] by linarith
        show ?thesis
        proof (cases "window data i = out")
          case same: True
          show ?thesis
          proof (cases "lowEntropyStringThreshold \<le> c + 1")
            case True
            from Lest [OF i8 lenok \<open>int i \<le> n - 8\<close> same True] show ?thesis .
          next
            case False
            then have lt: "c + 1 < lowEntropyStringThreshold" by simp
            have "P (i + 8) ?m (c + 1) dist out"
              using IH(1) [OF True refl capok refl same False] i8 by simp
            from Skip [OF i8 lenok True same lt this] show ?thesis .
          qed
        next
          case diff: False
          obtain ts fl where in_eq: "inner data i ?m 0 dist = (ts, fl)"
            by (cases "inner data i ?m 0 dist")
          show ?thesis
          proof (cases fl)
            case (Stop e')
            with in_eq have s: "snd (inner data i ?m 0 dist) = Stop e'" by simp
            from inner_Stop [OF s] inner_no_panic [OF i8 lenok, of ?m 0 dist] s
            obtain j' where j': "j' < 8" "e' = AtMask i j'" by auto
            from in_eq Stop j' have "inner data i ?m 0 dist = (ts, Stop (AtMask i j'))" by simp
            from Hit [OF i8 lenok True diff j'(1) this] show ?thesis .
          next
            case (Fallthrough dist')
            have step: "P (i + 8) ?m 0 dist' (window data i)"
              using IH(2) [OF True refl capok refl diff in_eq [symmetric] Fallthrough] i8 by simp
            from in_eq Fallthrough have "inner data i ?m 0 dist = (ts, Fallthrough dist')" by simp
            from Next [OF i8 lenok True diff this step] show ?thesis .
          qed
        qed
      qed
    qed
  qed
  with assms(2) show ?thesis by simp
qed

section \<open>Where the cutpoint lies\<close>

lemma scan_exit:
  assumes "n \<le> int (len data)" and "8 \<le> i"
  shows "\<exists>i'. snd (scan data n ns i msk c dist out) = AtEnd n \<or>
     (i \<le> i' \<and> int i' \<le> n - 8 \<and>
       (snd (scan data n ns i msk c dist out) = AtLEST i' \<or>
        (\<exists>j<8. snd (scan data n ns i msk c dist out) = AtMask i' j)))"
  using assms
proof (induction i msk c dist out rule: scan_cases_induct [where ns = ns])
  case (End i msk c dist out)
  then show ?case by (simp add: scan_end)
next
  case (Lest i msk c dist out)
  then show ?case using len_le_cap [of data] by (auto simp: scan_lest)
next
  case (Skip i msk c dist out)
  then show ?case using len_le_cap [of data] by (auto simp: scan_skip)
next
  case (Hit i msk c dist out ts j)
  then show ?case using len_le_cap [of data] by (auto simp: scan_stop)
next
  case (Next i msk c dist out ts dist')
  then show ?case using len_le_cap [of data] by (auto simp: scan_next)
qed

text \<open>The three ways a call with validated options and \<open>n \<le> len(data)\<close> can go.\<close>

lemma run_cases:
  assumes "Validate options = None" and "n \<le> int (len data)"
  shows "n \<le> MinSize options \<and> run options data n = ([], AtShort n)
     \<or> MinSize options < n \<and> int (cap data) < MinSize options + 8
          \<and> run options data n = ([], AtPanic)
     \<or> MinSize options < n \<and> MinSize options + 8 \<le> int (cap data)
          \<and> run options data n =
              scan data (min n (MaxSize options)) (min n (NormalSize options))
                (nat (MinSize options) + 8) maskS 0
                (initial_dist (window data (nat (MinSize options))))
                (window data (nat (MinSize options)))"
  using assms
  by (auto simp: run_def Validate_def Let_def min_def split: if_splits)

lemma Validate_NoneD:
  "Validate options = None \<Longrightarrow>
     64 \<le> MinSize options \<and> MinSize options < NormalSize options \<and>
     NormalSize options < MaxSize options \<and> MaxSize options \<le> 1024 * 1024 * 1024"
  by (auto simp: Validate_def split: if_splits)

lemma run_scan_exit:
  assumes "Validate options = None" and "n \<le> int (len data)"
    and "MinSize options < n" and "MinSize options + 8 \<le> int (cap data)"
  shows "\<exists>c. cutpoint (snd (run options data n)) = Return c \<and>
              MinSize options \<le> c \<and> c \<le> min n (MaxSize options)"
proof -
  let ?n = "min n (MaxSize options)"
  let ?i = "nat (MinSize options) + 8"
  note v = Validate_NoneD [OF assms(1)]
  from run_cases [OF assms(1,2)] assms(3,4)
  have r: "run options data n =
      scan data ?n (min n (NormalSize options)) ?i maskS 0
        (initial_dist (window data (nat (MinSize options))))
        (window data (nat (MinSize options)))" by auto
  have "?n \<le> int (len data)" using assms(2) by simp
  moreover have "8 \<le> ?i" by simp
  ultimately obtain i' where
    "snd (run options data n) = AtEnd ?n \<or>
     (?i \<le> i' \<and> int i' \<le> ?n - 8 \<and>
       (snd (run options data n) = AtLEST i' \<or> (\<exists>j<8. snd (run options data n) = AtMask i' j)))"
    unfolding r using scan_exit by blast
  then show ?thesis using v assms(3) by (elim disjE conjE exE) auto
qed

text \<open>
  C1. For validated options and \<open>0 \<le> n \<le> len(data)\<close>: if \<open>n \<le> minSize\<close> the call returns
  exactly \<open>n\<close>; otherwise every cutpoint the call returns satisfies
  \<open>minSize \<le> cutpoint \<le> min(n, maxSize)\<close>, and the call does return one whenever the
  backing array holds the initial window \<open>data[minSize : minSize+8]\<close>.
\<close>

theorem Algorithm_cutpoint_bounds:
  assumes "Validate options = None" and "0 \<le> n" and "n \<le> int (len data)"
  shows "if n \<le> MinSize options then Algorithm options data n = Return n
         else (case Algorithm options data n of
                 Return c \<Rightarrow> MinSize options \<le> c \<and> c \<le> min n (MaxSize options)
               | Panic \<Rightarrow> int (cap data) < MinSize options + 8)"
proof (cases "n \<le> MinSize options")
  case True
  with run_cases [OF assms(1,3)] show ?thesis by (auto simp: Algorithm_def)
next
  case False
  show ?thesis
  proof (cases "MinSize options + 8 \<le> int (cap data)")
    case True
    from run_scan_exit [OF assms(1,3) _ True] False show ?thesis
      by (auto simp: Algorithm_def)
  next
    case False
    with run_cases [OF assms(1,3)] \<open>\<not> n \<le> MinSize options\<close> show ?thesis
      by (auto simp: Algorithm_def)
  qed
qed

theorem Algorithm_cutpoint_bounds_witness:
  "Validate small_opts = None \<and> (0::int) \<le> 88 \<and> 88 \<le> int (len pattern88) \<and>
   \<not> 88 \<le> MinSize small_opts \<and> Algorithm small_opts pattern88 88 = Return 72 \<and>
   MinSize small_opts \<le> 72 \<and> 72 \<le> min 88 (MaxSize small_opts) \<and>
   Algorithm small_opts pattern88 64 = Return 64"
proof -
  have v: "Validate small_opts = None" by code_simp
  have l: "88 \<le> int (len pattern88)" by code_simp
  have l': "64 \<le> int (len pattern88)" by code_simp
  have r: "Algorithm small_opts pattern88 88 = Return 72" by code_simp
  have m: "MinSize small_opts = 64" "MaxSize small_opts = 256" by (simp_all add: small_opts_def)
  from Algorithm_cutpoint_bounds [OF v _ l] Algorithm_cutpoint_bounds [OF v _ l'] v l r m
  show ?thesis by simp
qed

text \<open>
  C2. The kernel is not total over its stated preconditions. With validated options and
  \<open>n = len(data) = cap(data) = 65\<close>, one byte more than \<open>minSize\<close>, the slice expression
  \<open>data[minSize : minSize+8]\<close> runs past the capacity and the call panics.
\<close>

theorem Algorithm_panics_on_short_tail:
  "Validate small_opts = None \<and> 65 \<le> int (len zeros65) \<and>
   Algorithm small_opts zeros65 65 = Panic"
  by code_simp

end
